theory Spec2Isabelle
  imports
    Main
    "HOL-Library.Word"
    "HOL-Library.Sublist"
    "HOL-Library.AList"
    "HOL-Library.Multiset"
    "HOL-Library.Char_ord"
begin

section \<open>Bytes and text\<close>

text \<open>
  A Python \<^verbatim>\<open>bytes\<close> object is a list of 8-bit words. A Python \<^verbatim>\<open>str\<close> is a list of
  \<^typ>\<open>char\<close>, read as the code points 0 to 255: every \<^verbatim>\<open>str\<close> of the modelled functions
  is made from single bytes by \<^verbatim>\<open>chr\<close> or by a decoder, so no other code point occurs.
\<close>

type_synonym byte = "8 word"

definition chr :: "byte \<Rightarrow> char" where
  "chr b = char_of (unat b)"

definition ord :: "char \<Rightarrow> byte" where
  "ord c = of_char c"

text \<open>The bytes literal \<^verbatim>\<open>b"..."\<close> of an ASCII text.\<close>

definition bytes :: "string \<Rightarrow> byte list" where
  "bytes s = map ord s"

text \<open>\<^verbatim>\<open>x.decode("ascii", "ignore")\<close>: bytes of 128 and above are dropped.\<close>

definition decode_ascii_ignore :: "byte list \<Rightarrow> string" where
  "decode_ascii_ignore bs = map chr (filter (\<lambda>b. b < 128) bs)"

text \<open>
  \<^verbatim>\<open>x.decode("utf-16le", "ignore")\<close> on the byte strings it is applied to in
  \<^verbatim>\<open>scan_blob\<close>: both groups of \<^verbatim>\<open>UTF16_KV_RE\<close> consist of pairs whose second byte is
  \<^verbatim>\<open>\x00\<close>, so each pair decodes to the code point of its first byte. A trailing
  unpaired byte is dropped.
\<close>

fun decode_utf16le_ignore :: "byte list \<Rightarrow> string" where
  "decode_utf16le_ignore (lo # hi # rest) = chr lo # decode_utf16le_ignore rest"
| "decode_utf16le_ignore _ = []"

section \<open>String recovery (tuya\_binary\_deep\_scan.py)\<close>

text \<open>
  The loop state of both scanners is the pair \<^verbatim>\<open>(out, cur)\<close>. \<^verbatim>\<open>flush\<close> is the
  \<^verbatim>\<open>if len(cur) >= min_len: out.append("".join(cur))\<close> of the source.
\<close>

definition flush :: "int \<Rightarrow> string list \<Rightarrow> string \<Rightarrow> string list" where
  "flush min_len out cur = (if min_len \<le> int (length cur) then out @ [cur] else out)"

definition ascii_step :: "int \<Rightarrow> byte \<Rightarrow> string list \<times> string \<Rightarrow> string list \<times> string" where
  "ascii_step min_len b st =
     (case st of (out, cur) \<Rightarrow>
        if 32 \<le> b \<and> b < 127 then (out, cur @ [chr b])
        else (flush min_len out cur, []))"

definition extract_ascii_strings :: "byte list \<Rightarrow> int \<Rightarrow> string list" where
  "extract_ascii_strings data min_len =
     (case fold (ascii_step min_len) data ([], []) of (out, cur) \<Rightarrow> flush min_len out cur)"

text \<open>
  \<^verbatim>\<open>range(0, stop, 2)\<close> for an integer \<^verbatim>\<open>stop\<close>: the even numbers below it, none when
  \<^verbatim>\<open>stop\<close> is not positive.
\<close>

definition range_step2 :: "int \<Rightarrow> nat list" where
  "range_step2 stop = map (\<lambda>k. 2 * k) [0 ..< nat ((stop + 1) div 2)]"

definition utf16_step ::
  "int \<Rightarrow> byte list \<Rightarrow> nat \<Rightarrow> string list \<times> string \<Rightarrow> string list \<times> string" where
  "utf16_step min_len data i st =
     (case st of (out, cur) \<Rightarrow>
        let lo = data ! i; hi = data ! (i + 1) in
        if hi = 0 \<and> 32 \<le> lo \<and> lo < 127 then (out, cur @ [chr lo])
        else (flush min_len out cur, []))"

definition extract_utf16le_strings :: "byte list \<Rightarrow> int \<Rightarrow> string list" where
  "extract_utf16le_strings data min_len =
     (case fold (utf16_step min_len data) (range_step2 (int (length data) - 1)) ([], [])
      of (out, cur) \<Rightarrow> flush min_len out cur)"

section \<open>Order-preserving deduplication\<close>

definition uniq_step :: "'a \<Rightarrow> 'a set \<times> 'a list \<Rightarrow> 'a set \<times> 'a list" where
  "uniq_step s st =
     (case st of (seen, res) \<Rightarrow> if s \<notin> seen then (insert s seen, res @ [s]) else (seen, res))"

definition uniq :: "'a list \<Rightarrow> 'a list" where
  "uniq seq = snd (fold uniq_step seq ({}, []))"

text \<open>\<^verbatim>\<open>uniq_preserve\<close> of tuya\_rts3903\_static\_recon.py is the same loop.\<close>

definition uniq_preserve :: "'a list \<Rightarrow> 'a list" where
  "uniq_preserve seq = snd (fold uniq_step seq ({}, []))"

section \<open>Regular expressions\<close>

text \<open>
  The patterns of the source are values of a small syntax of regular expressions, and
  Python's \<^verbatim>\<open>re\<close> module is a backtracking matcher over them: \<open>rx_run\<close> returns the
  states in which a pattern can end when started in a given state, in the order in which
  backtracking reaches them, so that the head of the list is the match Python reports.
  A state is the position in the subject and the groups captured so far (the newest
  first). Repetition is greedy. Every repeated pattern of this program consumes at least
  one character, so \<open>{m,}\<close> needs no more turns than characters are left.
\<close>

datatype 'a rx =
    Eps
  | Sym "'a \<Rightarrow> bool"
  | Cat "'a rx" "'a rx"
  | Alt "'a rx" "'a rx"
  | Rep nat nat "'a rx"
  | RepInf nat "'a rx"
  | Grp nat "'a rx"
  | WordB

type_synonym mstate = "nat \<times> (nat \<times> nat \<times> nat) list"

fun rep_run :: "(mstate \<Rightarrow> mstate list) \<Rightarrow> nat \<Rightarrow> nat \<Rightarrow> mstate \<Rightarrow> mstate list" where
  "rep_run f lo 0 st = (if lo = 0 then [st] else [])"
| "rep_run f lo (Suc k) st =
     concat (map (rep_run f (lo - 1) k) (f st)) @ (if lo = 0 then [st] else [])"

text \<open>\<^verbatim>\<open>\b\<close>: exactly one of the characters before and after the position is a word character.\<close>

definition at_boundary :: "('a \<Rightarrow> bool) \<Rightarrow> 'a list \<Rightarrow> nat \<Rightarrow> bool" where
  "at_boundary w s i =
     ((0 < i \<and> i \<le> length s \<and> w (s ! (i - 1))) \<noteq> (i < length s \<and> w (s ! i)))"

primrec rx_run :: "('a \<Rightarrow> bool) \<Rightarrow> 'a list \<Rightarrow> 'a rx \<Rightarrow> mstate \<Rightarrow> mstate list" where
  "rx_run w s Eps = (\<lambda>st. [st])"
| "rx_run w s (Sym p) =
     (\<lambda>st. if fst st < length s \<and> p (s ! fst st) then [(Suc (fst st), snd st)] else [])"
| "rx_run w s (Cat r1 r2) = (\<lambda>st. concat (map (rx_run w s r2) (rx_run w s r1 st)))"
| "rx_run w s (Alt r1 r2) = (\<lambda>st. rx_run w s r1 st @ rx_run w s r2 st)"
| "rx_run w s (Rep lo hi r) = rep_run (rx_run w s r) lo hi"
| "rx_run w s (RepInf lo r) =
     (\<lambda>st. rep_run (rx_run w s r) lo (max lo (length s - fst st)) st)"
| "rx_run w s (Grp n r) =
     (\<lambda>st. map (\<lambda>st'. (fst st', (n, fst st, fst st') # snd st')) (rx_run w s r st))"
| "rx_run w s WordB = (\<lambda>st. if at_boundary w s (fst st) then [st] else [])"

text \<open>
  The scan of \<^verbatim>\<open>findall\<close> and \<^verbatim>\<open>search\<close>: the leftmost start at which the pattern
  matches, then on from the end of that match. No pattern of this program matches the
  empty string; after an empty match the scan would move one character on.
\<close>

function rx_spans :: "('a \<Rightarrow> bool) \<Rightarrow> 'a rx \<Rightarrow> 'a list \<Rightarrow> nat \<Rightarrow> (nat \<times> mstate) list" where
  "rx_spans w r s i =
     (if length s < i then []
      else case rx_run w s r (i, []) of
             [] \<Rightarrow> rx_spans w r s (Suc i)
           | m # _ \<Rightarrow> (i, m) # rx_spans w r s (if i < fst m then fst m else Suc i))"
  by pat_completeness auto
termination
  by (relation "measure (\<lambda>(w, r, s, i). Suc (length s) - i)") auto

definition slice :: "'a list \<Rightarrow> nat \<Rightarrow> nat \<Rightarrow> 'a list" where
  "slice s i j = take (j - i) (drop i s)"

text \<open>The text of group \<open>n\<close> of a match; a group that took no part is the empty string.\<close>

definition group :: "'a list \<Rightarrow> nat \<Rightarrow> mstate \<Rightarrow> 'a list" where
  "group s n m = (case map_of (snd m) n of None \<Rightarrow> [] | Some (i, j) \<Rightarrow> slice s i j)"

text \<open>
  \<^verbatim>\<open>findall\<close> returns the whole matches of a pattern without groups, the texts of the
  group of a pattern with one group, and tuples for a pattern with several.
\<close>

definition findall_whole :: "('a \<Rightarrow> bool) \<Rightarrow> 'a rx \<Rightarrow> 'a list \<Rightarrow> 'a list list" where
  "findall_whole w r s = map (\<lambda>(i, m). slice s i (fst m)) (rx_spans w r s 0)"

definition findall_group1 :: "('a \<Rightarrow> bool) \<Rightarrow> 'a rx \<Rightarrow> 'a list \<Rightarrow> 'a list list" where
  "findall_group1 w r s = map (\<lambda>(i, m). group s 1 m) (rx_spans w r s 0)"

definition findall_pairs :: "('a \<Rightarrow> bool) \<Rightarrow> 'a rx \<Rightarrow> 'a list \<Rightarrow> ('a list \<times> 'a list) list" where
  "findall_pairs w r s = map (\<lambda>(i, m). (group s 1 m, group s 2 m)) (rx_spans w r s 0)"

definition search :: "('a \<Rightarrow> bool) \<Rightarrow> 'a rx \<Rightarrow> 'a list \<Rightarrow> bool" where
  "search w r s = (rx_spans w r s 0 \<noteq> [])"

section \<open>Character classes and pattern builders\<close>

text \<open>A bracket expression is a list of ranges; a single character is a range of one.\<close>

definition in_ranges :: "('a::linorder \<times> 'a) list \<Rightarrow> 'a \<Rightarrow> bool" where
  "in_ranges rs c = (\<exists>(lo, hi) \<in> set rs. lo \<le> c \<and> c \<le> hi)"

definition lit :: "'a \<Rightarrow> 'a rx" where
  "lit c = Sym (\<lambda>x. x = c)"

fun cat_all :: "'a rx list \<Rightarrow> 'a rx" where
  "cat_all [] = Eps"
| "cat_all [r] = r"
| "cat_all (r # rs) = Cat r (cat_all rs)"

fun alt_all :: "'a rx list \<Rightarrow> 'a rx" where
  "alt_all [] = Eps"
| "alt_all [r] = r"
| "alt_all (r # rs) = Alt r (alt_all rs)"

definition str :: "string \<Rightarrow> char rx" where
  "str s = cat_all (map lit s)"

text \<open>
  \<^verbatim>\<open>\w\<close> of a bytes pattern is \<^verbatim>\<open>[a-zA-Z0-9_]\<close>. In a \<^verbatim>\<open>str\<close> pattern it is every
  alphanumeric character and the underscore; below code point 256 these are the ASCII
  ones and the letters, digits and fractions of Latin-1.
\<close>

definition word_byte :: "byte \<Rightarrow> bool" where
  "word_byte = in_ranges
     [(ord CHR ''a'', ord CHR ''z''), (ord CHR ''A'', ord CHR ''Z''),
      (ord CHR ''0'', ord CHR ''9''), (ord CHR ''_'', ord CHR ''_'')]"

definition word_char :: "char \<Rightarrow> bool" where
  "word_char = in_ranges
     [(CHR ''a'', CHR ''z''), (CHR ''A'', CHR ''Z''), (CHR ''0'', CHR ''9''),
      (CHR ''_'', CHR ''_''),
      (CHR 0xAA, CHR 0xAA), (CHR 0xB2, CHR 0xB3), (CHR 0xB5, CHR 0xB5),
      (CHR 0xB9, CHR 0xBA), (CHR 0xBC, CHR 0xBE), (CHR 0xC0, CHR 0xD6),
      (CHR 0xD8, CHR 0xF6), (CHR 0xF8, CHR 0xFF)]"

text \<open>
  \<^verbatim>\<open>re.IGNORECASE\<close>: a letter of the pattern matches both of its cases. The patterns
  compiled with it hold ASCII letters only, and below code point 256 only the ASCII
  letter of the other case folds to an ASCII letter.
\<close>

definition lower :: "char \<Rightarrow> char" where
  "lower c = (if CHR ''A'' \<le> c \<and> c \<le> CHR ''Z'' then char_of (of_char c + (32::nat)) else c)"

definition ilit :: "char \<Rightarrow> char rx" where
  "ilit c = Sym (\<lambda>x. lower x = lower c)"

definition istr :: "string \<Rightarrow> char rx" where
  "istr s = cat_all (map ilit s)"

section \<open>Patterns and classifiers of tuya\_binary\_deep\_scan.py\<close>

text \<open>\<^verbatim>\<open>(/[a-zA-Z0-9_\-]+){2,}\<close>\<close>

definition MQTT_TOPIC_RE :: "char rx" where
  "MQTT_TOPIC_RE =
     RepInf 2 (Grp 1 (Cat (lit CHR ''/'')
       (RepInf 1 (Sym (in_ranges
          [(CHR ''a'', CHR ''z''), (CHR ''A'', CHR ''Z''), (CHR ''0'', CHR ''9''),
           (CHR ''_'', CHR ''_''), (CHR ''-'', CHR ''-'')])))))"

text \<open>\<^verbatim>\<open>"(?:devId|gwId|dps|uid|localKey|schemaId|productKey|cid)"\<close>\<close>

definition TUYA_DP_RE :: "char rx" where
  "TUYA_DP_RE =
     cat_all [lit (CHR 0x22),
       alt_all (map str [''devId'', ''gwId'', ''dps'', ''uid'', ''localKey'', ''schemaId'',
                         ''productKey'', ''cid'']),
       lit (CHR 0x22)]"

text \<open>\<^verbatim>\<open>\b[0-9a-fA-F]{32}\b|\b[0-9a-fA-F]{48}\b|\b[0-9a-fA-F]{64}\b\<close>\<close>

definition hex_digit :: "char \<Rightarrow> bool" where
  "hex_digit = in_ranges [(CHR ''0'', CHR ''9''), (CHR ''a'', CHR ''f''), (CHR ''A'', CHR ''F'')]"

definition AES_KEY_HEX_RE :: "char rx" where
  "AES_KEY_HEX_RE =
     alt_all [cat_all [WordB, Rep 32 32 (Sym hex_digit), WordB],
              cat_all [WordB, Rep 48 48 (Sym hex_digit), WordB],
              cat_all [WordB, Rep 64 64 (Sym hex_digit), WordB]]"

text \<open>\<^verbatim>\<open>\b[A-Za-z0-9+/]{22,}={0,2}\b\<close>\<close>

definition base64_char :: "char \<Rightarrow> bool" where
  "base64_char = in_ranges
     [(CHR ''A'', CHR ''Z''), (CHR ''a'', CHR ''z''), (CHR ''0'', CHR ''9''),
      (CHR ''+'', CHR ''+''), (CHR ''/'', CHR ''/'')]"

definition BASE64_KEY_RE :: "char rx" where
  "BASE64_KEY_RE =
     cat_all [WordB, RepInf 22 (Sym base64_char), Rep 0 2 (lit CHR ''=''), WordB]"

text \<open>
  \<^verbatim>\<open>(signature|authKey|localKey|HMAC|SHA256|ECDSA|curve25519|X-Amz-Signature)\<close>,
  compiled with \<^verbatim>\<open>re.IGNORECASE\<close>.
\<close>

definition TUYA_SIG_HINT_RE :: "char rx" where
  "TUYA_SIG_HINT_RE =
     Grp 1 (alt_all (map istr [''signature'', ''authKey'', ''localKey'', ''HMAC'', ''SHA256'',
                               ''ECDSA'', ''curve25519'', ''X-Amz-Signature'']))"

definition find_json_like :: "string list \<Rightarrow> string list" where
  "find_json_like strings =
     uniq (fold (\<lambda>s hits.
             if CHR ''{'' \<in> set s \<and> CHR ''}'' \<in> set s \<and> CHR '':'' \<in> set s
             then (if length s \<le> 512 then hits @ [s] else hits)
             else hits) strings [])"

definition find_mqtt_topics :: "string list \<Rightarrow> string list" where
  "find_mqtt_topics strings =
     uniq (fold (\<lambda>s hits.
             let m = findall_group1 word_char MQTT_TOPIC_RE s in
             if m \<noteq> [] then fold (\<lambda>_ hits. hits @ [s]) m hits else hits) strings [])"

definition find_tuya_dp :: "string list \<Rightarrow> string list" where
  "find_tuya_dp strings =
     uniq (fold (\<lambda>s hits. if search word_char TUYA_DP_RE s then hits @ [s] else hits)
             strings [])"

text \<open>
  The matches are \<^verbatim>\<open>str\<close> already, so the \<^verbatim>\<open>isinstance\<close> test of the source keeps
  each of them as it is.
\<close>

definition find_keys :: "string list \<Rightarrow> string list \<times> string list" where
  "find_keys strings =
     (case fold (\<lambda>s (hex_hits, b64_hits).
                   (hex_hits @ findall_whole word_char AES_KEY_HEX_RE s,
                    b64_hits @ findall_whole word_char BASE64_KEY_RE s)) strings ([], [])
      of (hex_hits, b64_hits) \<Rightarrow> (uniq hex_hits, uniq b64_hits))"

definition find_tuya_sig :: "string list \<Rightarrow> string list" where
  "find_tuya_sig strings =
     uniq (fold (\<lambda>s hits. if search word_char TUYA_SIG_HINT_RE s then hits @ [s] else hits)
             strings [])"

text \<open>The categories that \<^verbatim>\<open>analyze_binary\<close> computes from the recovered strings.\<close>

record categories =
  json_like :: "string list"
  mqtt_topics_like :: "string list"
  tuya_dp_fragments :: "string list"
  aes_key_hex_candidates :: "string list"
  base64_key_candidates :: "string list"
  tuya_signature_related :: "string list"

definition classify :: "string list \<Rightarrow> categories" where
  "classify all_strings =
     (let json_like = find_json_like all_strings;
          mqtt_topics = find_mqtt_topics all_strings;
          tuya_dp = find_tuya_dp all_strings;
          (hex_keys, b64_keys) = find_keys all_strings;
          tuya_sig = find_tuya_sig all_strings
      in \<lparr>json_like = json_like, mqtt_topics_like = mqtt_topics,
          tuya_dp_fragments = tuya_dp, aes_key_hex_candidates = hex_keys,
          base64_key_candidates = b64_keys, tuya_signature_related = tuya_sig\<rparr>)"

text \<open>The strings that \<^verbatim>\<open>analyze_binary\<close> classifies: both scans with \<^verbatim>\<open>min_len=4\<close>.\<close>

definition all_strings :: "byte list \<Rightarrow> string list" where
  "all_strings data = extract_ascii_strings data 4 @ extract_utf16le_strings data 4"

section \<open>The blob detector (tuya\_nvram\_blob\_detector.py)\<close>

definition KEYWORDS :: "byte list list" where
  "KEYWORDS = map bytes
     [''UUID'', ''AUTHKEY'', ''P2PID'', ''PID'', ''MAC'', ''SN'',
      ''uuid'', ''authkey'', ''p2pid'', ''pid'', ''mac'', ''sn'',
      ''localKey'', ''devId'', ''productKey'']"

text \<open>\<^verbatim>\<open>([A-Za-z0-9_]{2,32})=([^\x00\r\n]{1,128})\<close>\<close>

definition ident_byte :: "byte \<Rightarrow> bool" where
  "ident_byte = in_ranges
     [(ord CHR ''A'', ord CHR ''Z''), (ord CHR ''a'', ord CHR ''z''),
      (ord CHR ''0'', ord CHR ''9''), (ord CHR ''_'', ord CHR ''_'')]"

definition value_byte :: "byte \<Rightarrow> bool" where
  "value_byte b = (\<not> in_ranges [(0x00, 0x00), (0x0D, 0x0D), (0x0A, 0x0A)] b)"

definition ASCII_KV_RE :: "byte rx" where
  "ASCII_KV_RE =
     cat_all [Grp 1 (Rep 2 32 (Sym ident_byte)), lit (ord CHR ''=''),
              Grp 2 (Rep 1 128 (Sym value_byte))]"

text \<open>
  \<^verbatim>\<open>((?:[A-Za-z0-9_]\x00){2,32})=((?:.\x00){2,128})\<close>; the dot of a bytes pattern is
  every byte but the line feed.
\<close>

definition UTF16_KV_RE :: "byte rx" where
  "UTF16_KV_RE =
     cat_all [Grp 1 (Rep 2 32 (Cat (Sym ident_byte) (lit 0x00))), lit (ord CHR ''=''),
              Grp 2 (Rep 2 128 (Cat (Sym (\<lambda>b. b \<noteq> 0x0A)) (lit 0x00)))]"

text \<open>
  The dictionary \<^verbatim>\<open>hits\<close> is an association list in insertion order; its values are
  lists of strings, lists of pairs, the flag and the size.
\<close>

datatype hitval =
    StrList "string list"
  | PairList "(string \<times> string) list"
  | Flag bool
  | Size nat

definition keyword_hits :: "byte list \<Rightarrow> string list" where
  "keyword_hits data =
     fold (\<lambda>kw keyword_hits.
             if sublist kw data then keyword_hits @ [decode_ascii_ignore kw]
             else keyword_hits) KEYWORDS []"

definition ascii_hits :: "byte list \<Rightarrow> (string \<times> string) list" where
  "ascii_hits data =
     fold (\<lambda>m ascii_hits.
             let key = decode_ascii_ignore (fst m); val = decode_ascii_ignore (snd m)
             in ascii_hits @ [(key, val)]) (findall_pairs word_byte ASCII_KV_RE data) []"

definition utf16_hits :: "byte list \<Rightarrow> (string \<times> string) list" where
  "utf16_hits data =
     fold (\<lambda>m utf16_hits.
             let key = decode_utf16le_ignore (fst m); val = decode_utf16le_ignore (snd m)
             in utf16_hits @ [(key, val)]) (findall_pairs word_byte UTF16_KV_RE data) []"

text \<open>The body of \<^verbatim>\<open>scan_blob\<close> after the size gate (lines 31 to 68).\<close>

definition blob_checks :: "byte list \<Rightarrow> (string \<times> hitval) list option" where
  "blob_checks data =
     (let size = length data;
          hits = [];
          hits = (if keyword_hits data \<noteq> []
                  then AList.update ''keyword_hits'' (StrList (keyword_hits data)) hits
                  else hits);
          hits = (if ascii_hits data \<noteq> []
                  then AList.update ''ascii_kv'' (PairList (ascii_hits data)) hits
                  else hits);
          hits = (if utf16_hits data \<noteq> []
                  then AList.update ''utf16_kv'' (PairList (utf16_hits data)) hits
                  else hits);
          entropy = card (set data);
          hits = (if entropy < 200
                  then AList.update ''low_entropy_hint'' (Flag True) hits
                  else hits)
      in if hits \<noteq> [] then Some (AList.update ''size'' (Size size) hits) else None)"

text \<open>\<^verbatim>\<open>scan_blob\<close> on the bytes read (lines 27 to 68).\<close>

definition scan_data :: "byte list \<Rightarrow> (string \<times> hitval) list option" where
  "scan_data data =
     (let size = length data in
      if size < 32 \<or> size > 1024 * 1024 then None else blob_checks data)"

text \<open>
  \<^verbatim>\<open>scan_blob(path)\<close>: the file system gives the content of a path, or nothing when
  \<^verbatim>\<open>open\<close> or \<^verbatim>\<open>read\<close> raises; the bare \<^verbatim>\<open>except\<close> turns that into \<^verbatim>\<open>None\<close>.
\<close>

definition scan_blob :: "(string \<rightharpoonup> byte list) \<Rightarrow> string \<Rightarrow> (string \<times> hitval) list option" where
  "scan_blob fs path =
     (case fs path of None \<Rightarrow> None | Some data \<Rightarrow> scan_data data)"

section \<open>Notions of the statements\<close>

text \<open>A verdict carries the low-entropy flag.\<close>

definition has_low_entropy_hint :: "(string \<times> hitval) list option \<Rightarrow> bool" where
  "has_low_entropy_hint v =
     (case v of None \<Rightarrow> False
      | Some hits \<Rightarrow> map_of hits ''low_entropy_hint'' = Some (Flag True))"

text \<open>A verdict records a keyword among its keyword hits.\<close>

definition keyword_recorded :: "string \<Rightarrow> (string \<times> hitval) list option \<Rightarrow> bool" where
  "keyword_recorded kw v =
     (case v of None \<Rightarrow> False
      | Some hits \<Rightarrow>
          (case map_of hits ''keyword_hits'' of
             Some (StrList kws) \<Rightarrow> kw \<in> set kws
           | _ \<Rightarrow> False))"

text \<open>
  The signal groups of a buffer in the words of the specification: the keyword hits, the
  two lists of pairs and the flag, each left out when it did not fire.
\<close>

definition signal_groups :: "byte list \<Rightarrow> (string \<times> hitval) list" where
  "signal_groups data =
     (if keyword_hits data \<noteq> [] then [(''keyword_hits'', StrList (keyword_hits data))] else []) @
     (if ascii_hits data \<noteq> [] then [(''ascii_kv'', PairList (ascii_hits data))] else []) @
     (if utf16_hits data \<noteq> [] then [(''utf16_kv'', PairList (utf16_hits data))] else []) @
     (if card (set data) < 200 then [(''low_entropy_hint'', Flag True)] else [])"

text \<open>A text whose characters all have a code from 32 to 126.\<close>

definition printable :: "string \<Rightarrow> bool" where
  "printable s = (\<forall>c \<in> set s. (32::nat) \<le> of_char c \<and> of_char c \<le> (126::nat))"

text \<open>
  The text \<open>s\<close> stands in the buffer at the even offset \<open>i\<close> in two-byte form: each of
  its characters is the printable first byte of a pair whose second byte is zero.
\<close>

definition wide_at :: "byte list \<Rightarrow> nat \<Rightarrow> string \<Rightarrow> bool" where
  "wide_at data i s =
     (even i \<and> i + 2 * length s \<le> length data \<and>
      (\<forall>j < length s.
         data ! (i + 2 * j + 1) = 0 \<and> 32 \<le> data ! (i + 2 * j) \<and> data ! (i + 2 * j) < 127 \<and>
         s ! j = chr (data ! (i + 2 * j))))"

text \<open>The wide encoding of an ASCII text: each character followed by a zero byte.\<close>

definition utf16le_encode :: "string \<Rightarrow> byte list" where
  "utf16le_encode s = concat (map (\<lambda>c. [ord c, 0x00]) s)"

text \<open>The loop invariants of the two scanners.\<close>

definition ascii_inv :: "int \<Rightarrow> string list \<times> string \<Rightarrow> bool" where
  "ascii_inv min_len st =
     ((\<forall>s \<in> set (fst st). min_len \<le> int (length s) \<and> printable s) \<and> printable (snd st))"

definition utf16_inv :: "int \<Rightarrow> byte list \<Rightarrow> nat \<Rightarrow> string list \<times> string \<Rightarrow> bool" where
  "utf16_inv min_len data k st =
     ((\<forall>s \<in> set (fst st). min_len \<le> int (length s) \<and> (\<exists>i. wide_at data i s)) \<and>
      length (snd st) \<le> k \<and> wide_at data (2 * (k - length (snd st))) (snd st))"

text \<open>Two hit lists hold the same hits, each once, in whatever order.\<close>

definition same_hits :: "string list \<Rightarrow> string list \<Rightarrow> bool" where
  "same_hits hs hs' = (distinct hs \<and> distinct hs' \<and> set hs = set hs' \<and> mset hs = mset hs')"

text \<open>The length of the run of characters of a class that starts at a position.\<close>

definition runlen :: "('a \<Rightarrow> bool) \<Rightarrow> 'a list \<Rightarrow> nat \<Rightarrow> nat" where
  "runlen p s i = length (takeWhile p (drop i s))"

text \<open>
  The ends of \<^verbatim>\<open>ASCII_KV_RE\<close> started at \<open>i\<close>, written out: the key takes \<open>k\<close>
  identifier bytes, the longest first, an equals sign follows, and the value takes \<open>n\<close>
  bytes, the longest first.
\<close>

definition kv_runs :: "byte list \<Rightarrow> nat \<Rightarrow> mstate list" where
  "kv_runs s i =
     concat (map (\<lambda>k. if i + k < length s \<and> s ! (i + k) = ord CHR ''=''
                       then map (\<lambda>n. (i + k + 1 + n, [(2, i + k + 1, i + k + 1 + n), (1, i, i + k)]))
                              (rev [1 ..< Suc (min 128 (runlen value_byte s (i + k + 1)))])
                       else [])
               (rev [2 ..< Suc (min 32 (runlen ident_byte s i))]))"

section \<open>The size gate and the verdict\<close>

lemma blob_checks_groups:
  "blob_checks data =
     (if signal_groups data = [] then None
      else Some (signal_groups data @ [(''size'', Size (length data))]))"
  by (simp add: blob_checks_def signal_groups_def Let_def)

lemma scan_data_in_range:
  "32 \<le> length data \<Longrightarrow> length data \<le> 1048576 \<Longrightarrow> scan_data data = blob_checks data"
  by (simp add: scan_data_def Let_def)

lemma scan_data_out_of_range:
  "length data < 32 \<or> 1048576 < length data \<Longrightarrow> scan_data data = None"
  by (auto simp add: scan_data_def Let_def)

lemma low_entropy_in_range:
  "32 \<le> length data \<Longrightarrow> length data \<le> 1048576 \<Longrightarrow>
   has_low_entropy_hint (scan_data data) \<longleftrightarrow> card (set data) < 200"
  by (simp add: scan_data_in_range blob_checks_groups signal_groups_def has_low_entropy_hint_def)

lemma low_entropy_needs_few:
  "has_low_entropy_hint (scan_data data) \<Longrightarrow> card (set data) < 200"
proof (cases "32 \<le> length data \<and> length data \<le> 1048576")
  case True
  then show "has_low_entropy_hint (scan_data data) \<Longrightarrow> card (set data) < 200"
    by (simp add: low_entropy_in_range)
next
  case False
  then have "scan_data data = None" by (intro scan_data_out_of_range) auto
  then show "has_low_entropy_hint (scan_data data) \<Longrightarrow> card (set data) < 200"
    by (simp add: has_low_entropy_hint_def)
qed

lemma card_replicate: "0 < n \<Longrightarrow> card (set (replicate n x)) = 1"
  by simp

lemma many_values:
  "200 \<le> card (set (bytes ''AUTHKEY'' @ map word_of_nat [0 ..< 200] :: byte list))"
proof -
  have inj: "inj_on (word_of_nat :: nat \<Rightarrow> byte) (set [0 ..< 200])"
  proof (rule inj_onI)
    fix m n :: nat
    assume "m \<in> set [0 ..< 200]" "n \<in> set [0 ..< 200]"
      and eq: "(word_of_nat m :: byte) = word_of_nat n"
    then have "m < 2 ^ 8" "n < 2 ^ 8" by simp_all
    then have "take_bit 8 m = m" "take_bit 8 n = n" by (simp_all add: take_bit_nat_eq_self)
    with eq show "m = n" by (simp add: word_of_nat_eq_iff)
  qed
  have "distinct (map word_of_nat [0 ..< 200] :: byte list)"
    by (simp only: distinct_map distinct_upt inj simp_thms)
  then have "card (set (map word_of_nat [0 ..< 200] :: byte list)) = 200"
    by (simp only: distinct_card length_map length_upt)
  moreover have "card (set (map word_of_nat [0 ..< 200] :: byte list))
      \<le> card (set (bytes ''AUTHKEY'' @ map word_of_nat [0 ..< 200] :: byte list))"
    by (rule card_mono) (simp_all del: upt_Suc)
  ultimately show ?thesis by simp
qed

text \<open>
  C1. A file is evaluated as a blob candidate exactly when its length is from 32 to
  1,048,576 bytes: below and above, \<^verbatim>\<open>scan_blob\<close> returns no verdict whatever the bytes
  are; within, its result is that of the checks that follow the gate.
\<close>

theorem size_gate:
  assumes "fs path = Some data"
  shows "(length data < 32 \<or> 1048576 < length data \<longrightarrow> scan_blob fs path = None) \<and>
         (32 \<le> length data \<and> length data \<le> 1048576 \<longrightarrow> scan_blob fs path = blob_checks data)"
  using assms scan_data_in_range [of data] scan_data_out_of_range [of data]
  by (simp add: scan_blob_def)

theorem size_gate_witness:
  "scan_blob [''f'' \<mapsto> replicate 31 0x41] ''f'' = None \<and>
   scan_blob [''f'' \<mapsto> replicate 1048577 0x41] ''f'' = None \<and>
   scan_blob [''f'' \<mapsto> replicate 32 0x41] ''f'' = blob_checks (replicate 32 0x41) \<and>
   scan_blob [''f'' \<mapsto> replicate 1048576 0x41] ''f'' = blob_checks (replicate 1048576 0x41)"
  using size_gate [of "[''f'' \<mapsto> replicate 31 0x41]" "''f''" "replicate 31 0x41"]
    size_gate [of "[''f'' \<mapsto> replicate 1048577 0x41]" "''f''" "replicate 1048577 0x41"]
    size_gate [of "[''f'' \<mapsto> replicate 32 0x41]" "''f''" "replicate 32 0x41"]
    size_gate [of "[''f'' \<mapsto> replicate 1048576 0x41]" "''f''" "replicate 1048576 0x41"]
  by (simp only: length_replicate fun_upd_same) simp

text \<open>
  C4, as the code has it. The flag is set exactly when fewer than 200 distinct byte values
  occur, for every buffer that passes the size gate; a buffer outside the gate has no
  verdict and so no flag. A buffer with 200 or more distinct values never has the flag,
  whatever keywords it holds.
\<close>

theorem low_entropy_flag:
  "(32 \<le> length data \<and> length data \<le> 1048576 \<longrightarrow>
      (has_low_entropy_hint (scan_data data) \<longleftrightarrow> card (set data) < 200)) \<and>
   (200 \<le> card (set data) \<longrightarrow> \<not> has_low_entropy_hint (scan_data data))"
  using low_entropy_in_range [of data] low_entropy_needs_few [of data] by auto

theorem low_entropy_flag_witness:
  "has_low_entropy_hint (scan_data (replicate 32 0x41)) \<and>
   \<not> has_low_entropy_hint (scan_data (bytes ''AUTHKEY'' @ map word_of_nat [0 ..< 200]))"
proof -
  have "card (set (replicate 32 (0x41 :: byte))) < 200" by (simp add: card_replicate)
  then show ?thesis
    using low_entropy_flag [of "replicate 32 0x41"]
      low_entropy_flag [of "bytes ''AUTHKEY'' @ map word_of_nat [0 ..< 200]"] many_values
    by (simp only: length_replicate) simp
qed

text \<open>
  The claim as stated fails below the gate: the empty buffer has no byte value at all,
  fewer than 200, and no flag is set for it.
\<close>

theorem low_entropy_flag_counterexample:
  "card (set ([] :: byte list)) < 200 \<and> \<not> has_low_entropy_hint (scan_data [])"
  by (simp add: scan_data_def has_low_entropy_hint_def)

text \<open>
  C5. For a buffer that passes the size gate, a verdict is returned exactly when a keyword
  was found, a pair was found in either encoding, or the low-entropy flag fired; the
  verdict is then the groups that fired, none of them empty, followed by the size.
\<close>

theorem verdict_iff_signal:
  assumes "32 \<le> length data" "length data \<le> 1048576"
  shows "(scan_data data \<noteq> None \<longleftrightarrow>
            keyword_hits data \<noteq> [] \<or> ascii_hits data \<noteq> [] \<or> utf16_hits data \<noteq> [] \<or>
            card (set data) < 200) \<and>
         (\<forall>hits. scan_data data = Some hits \<longrightarrow>
            hits = signal_groups data @ [(''size'', Size (length data))] \<and>
            (\<forall>g \<in> set (signal_groups data).
               snd g \<noteq> StrList [] \<and> snd g \<noteq> PairList [] \<and> snd g \<noteq> Flag False))"
proof -
  have "scan_data data = blob_checks data" using assms by (rule scan_data_in_range)
  moreover have "signal_groups data \<noteq> [] \<longleftrightarrow>
      keyword_hits data \<noteq> [] \<or> ascii_hits data \<noteq> [] \<or> utf16_hits data \<noteq> [] \<or> card (set data) < 200"
    by (simp add: signal_groups_def)
  moreover have "\<forall>g \<in> set (signal_groups data).
      snd g \<noteq> StrList [] \<and> snd g \<noteq> PairList [] \<and> snd g \<noteq> Flag False"
    by (auto simp add: signal_groups_def)
  ultimately show ?thesis by (auto simp add: blob_checks_groups)
qed

theorem verdict_iff_signal_witness:
  "card (set (replicate 32 (0x41 :: byte))) < 200 \<and> scan_data (replicate 32 0x41) \<noteq> None"
proof -
  have "card (set (replicate 32 (0x41 :: byte))) < 200" by (simp add: card_replicate)
  then show ?thesis
    using verdict_iff_signal [of "replicate 32 0x41"] by (simp only: length_replicate) simp
qed

text \<open>
  C9. A buffer of 32 to 199 bytes always gets a verdict with the low-entropy flag: it
  cannot hold more distinct byte values than it has bytes.
\<close>

theorem short_buffer_low_entropy:
  assumes "32 \<le> length data" "length data \<le> 199"
  shows "\<exists>hits. scan_data data = Some hits \<and> map_of hits ''low_entropy_hint'' = Some (Flag True)"
proof -
  have "card (set data) \<le> length data" by (rule card_length)
  with assms have "card (set data) < 200" by simp
  moreover from assms have "32 \<le> length data" "length data \<le> 1048576" by simp_all
  ultimately have "has_low_entropy_hint (scan_data data)" by (simp add: low_entropy_in_range)
  then show ?thesis by (cases "scan_data data") (simp_all add: has_low_entropy_hint_def)
qed

theorem short_buffer_low_entropy_witness:
  "has_low_entropy_hint (scan_data (replicate 199 0x00))"
  using short_buffer_low_entropy [of "replicate 199 0x00"]
  by (auto simp add: has_low_entropy_hint_def)

section \<open>The recovered strings\<close>

lemma of_char_chr: "of_char (chr b) = unat b"
proof -
  have "unat b < 256" using unsigned_less [of b, where 'a = nat] by simp
  then show ?thesis by (simp add: chr_def)
qed

lemma chr_printable:
  assumes "32 \<le> b" "b < 127"
  shows "(32::nat) \<le> of_char (chr b) \<and> of_char (chr b) \<le> (126::nat)"
proof -
  from assms have "32 \<le> unat b" "unat b < 127"
    by (simp_all add: word_le_nat_alt word_less_nat_alt)
  then show ?thesis by (simp add: of_char_chr)
qed

lemma flush_set:
  "set (flush min_len out cur) = set out \<union> (if min_len \<le> int (length cur) then {cur} else {})"
  by (simp add: flush_def)

lemma ascii_step_inv: "ascii_inv min_len st \<Longrightarrow> ascii_inv min_len (ascii_step min_len b st)"
  by (cases st) (auto simp add: ascii_inv_def ascii_step_def flush_set printable_def
      dest: chr_printable split: if_splits)

lemma ascii_fold_inv:
  "ascii_inv min_len st \<Longrightarrow> ascii_inv min_len (fold (ascii_step min_len) data st)"
  by (induction data arbitrary: st) (simp_all add: ascii_step_inv)

lemma extract_ascii_strings_sound:
  assumes "s \<in> set (extract_ascii_strings data min_len)"
  shows "min_len \<le> int (length s) \<and> printable s"
proof -
  obtain out cur where f: "fold (ascii_step min_len) data ([], []) = (out, cur)"
    by (cases "fold (ascii_step min_len) data ([], [])")
  have "ascii_inv min_len ([], [])" by (simp add: ascii_inv_def printable_def)
  then have "ascii_inv min_len (out, cur)" using ascii_fold_inv [of min_len "([], [])" data] f by simp
  moreover from assms f have "s \<in> set (flush min_len out cur)"
    by (simp add: extract_ascii_strings_def)
  ultimately show ?thesis by (auto simp add: ascii_inv_def flush_set split: if_splits)
qed

lemma wide_at_snoc:
  assumes w: "wide_at data (2 * (k - length cur)) cur" and len: "length cur \<le> k"
    and k: "2 * k + 2 \<le> length data"
    and pair: "data ! (2 * k + 1) = 0" "32 \<le> data ! (2 * k)" "data ! (2 * k) < 127"
  shows "wide_at data (2 * (Suc k - length (cur @ [chr (data ! (2 * k))]))) (cur @ [chr (data ! (2 * k))])"
proof -
  let ?i = "2 * (k - length cur)" and ?c = "chr (data ! (2 * k))"
  have idx: "?i + 2 * length cur = 2 * k" using len by simp
  have "\<forall>j < length (cur @ [?c]).
          data ! (?i + 2 * j + 1) = 0 \<and> 32 \<le> data ! (?i + 2 * j) \<and> data ! (?i + 2 * j) < 127 \<and>
          (cur @ [?c]) ! j = chr (data ! (?i + 2 * j))"
  proof (intro allI impI)
    fix j assume j: "j < length (cur @ [?c])"
    show "data ! (?i + 2 * j + 1) = 0 \<and> 32 \<le> data ! (?i + 2 * j) \<and> data ! (?i + 2 * j) < 127 \<and>
          (cur @ [?c]) ! j = chr (data ! (?i + 2 * j))"
    proof (cases "j < length cur")
      case True
      with w show ?thesis by (simp add: wide_at_def nth_append)
    next
      case False
      with j have "j = length cur" by simp
      with idx pair show ?thesis by (simp add: nth_append)
    qed
  qed
  moreover have "?i + 2 * length (cur @ [?c]) \<le> length data" using len k by simp
  ultimately have "wide_at data ?i (cur @ [?c])" unfolding wide_at_def by simp
  moreover have "2 * (Suc k - length (cur @ [?c])) = ?i" by simp
  ultimately show ?thesis by simp
qed

lemma utf16_step_inv:
  assumes "utf16_inv min_len data k st" "2 * k + 2 \<le> length data"
  shows "utf16_inv min_len data (Suc k) (utf16_step min_len data (2 * k) st)"
proof -
  obtain out cur where st: "st = (out, cur)" by (cases st)
  show ?thesis
  proof (cases "data ! (2 * k + 1) = 0 \<and> 32 \<le> data ! (2 * k) \<and> data ! (2 * k) < 127")
    case True
    then have step: "utf16_step min_len data (2 * k) st = (out, cur @ [chr (data ! (2 * k))])"
      by (simp add: utf16_step_def st Let_def)
    from assms st have w: "wide_at data (2 * (k - length cur)) cur" and len: "length cur \<le> k"
      by (simp_all add: utf16_inv_def)
    have "wide_at data (2 * (Suc k - length (cur @ [chr (data ! (2 * k))]))) (cur @ [chr (data ! (2 * k))])"
      using wide_at_snoc [OF w len assms(2)] True by blast
    with assms(1) len show ?thesis
      unfolding step by (simp add: utf16_inv_def st)
  next
    case False
    then have step: "utf16_step min_len data (2 * k) st = (flush min_len out cur, [])"
      by (auto simp add: utf16_step_def st Let_def)
    from assms st have "\<exists>i. wide_at data i cur" by (auto simp add: utf16_inv_def)
    with assms show ?thesis
      unfolding step by (auto simp add: utf16_inv_def st flush_set wide_at_def split: if_splits)
  qed
qed

lemma utf16_fold_inv:
  "2 * n \<le> length data \<Longrightarrow>
   utf16_inv min_len data n (fold (utf16_step min_len data) (map (\<lambda>k. 2 * k) [0 ..< n]) ([], []))"
proof (induction n)
  case 0
  show ?case by (simp add: utf16_inv_def wide_at_def)
next
  case (Suc n)
  then have "utf16_inv min_len data n (fold (utf16_step min_len data) (map (\<lambda>k. 2 * k) [0 ..< n]) ([], []))"
    by simp
  from utf16_step_inv [OF this] Suc.prems show ?case by simp
qed

lemma range_step2_length: "range_step2 (int (length data) - 1) = map (\<lambda>k. 2 * k) [0 ..< length data div 2]"
proof -
  have "nat ((int (length data) - 1 + 1) div 2) = length data div 2" by simp
  then show ?thesis by (simp add: range_step2_def)
qed

lemma extract_utf16le_strings_sound:
  assumes "s \<in> set (extract_utf16le_strings data min_len)"
  shows "min_len \<le> int (length s) \<and> (\<exists>i. wide_at data i s)"
proof -
  let ?n = "length data div 2"
  obtain out cur where
    f: "fold (utf16_step min_len data) (map (\<lambda>k. 2 * k) [0 ..< ?n]) ([], []) = (out, cur)"
    by (cases "fold (utf16_step min_len data) (map (\<lambda>k. 2 * k) [0 ..< ?n]) ([], [])")
  have "2 * ?n \<le> length data" by simp
  from utf16_fold_inv [OF this, of min_len] f have inv: "utf16_inv min_len data ?n (out, cur)" by simp
  from assms f have "s \<in> set (flush min_len out cur)"
    by (simp add: extract_utf16le_strings_def range_step2_length)
  with inv show ?thesis by (auto simp add: utf16_inv_def flush_set split: if_splits)
qed

text \<open>
  C6. With a minimum of at least one, every string of the single-byte scan is at least as
  long as the minimum and has only characters of code 32 to 126, and every string of the
  two-byte scan is at least as long as the minimum and stands in the buffer, at an even
  offset, as pairs whose second byte is zero and whose first byte is printable ASCII.
\<close>

theorem recovered_strings_printable:
  assumes "1 \<le> min_len"
  shows "(\<forall>s \<in> set (extract_ascii_strings data min_len).
            min_len \<le> int (length s) \<and>
            (\<forall>c \<in> set s. (32::nat) \<le> of_char c \<and> of_char c \<le> (126::nat))) \<and>
         (\<forall>s \<in> set (extract_utf16le_strings data min_len).
            min_len \<le> int (length s) \<and> (\<exists>i. wide_at data i s))"
  using extract_ascii_strings_sound [of _ data min_len]
    extract_utf16le_strings_sound [of _ data min_len]
  unfolding printable_def by blast

lemma scan_AUTH:
  "extract_ascii_strings (bytes ''AUTH'' @ [0x00] @ bytes ''abc'') 4 = [''AUTH'']"
  "extract_utf16le_strings (utf16le_encode ''AUTH'' @ [0x41, 0x01]) 4 = [''AUTH'']"
  by code_simp+

theorem recovered_strings_printable_witness:
  "(1::int) \<le> 4 \<and>
   extract_ascii_strings (bytes ''AUTH'' @ [0x00] @ bytes ''abc'') 4 = [''AUTH''] \<and>
   extract_utf16le_strings (utf16le_encode ''AUTH'' @ [0x41, 0x01]) 4 = [''AUTH''] \<and>
   (4::int) \<le> int (length ''AUTH'') \<and> printable ''AUTH'' \<and>
   (\<exists>i. wide_at (utf16le_encode ''AUTH'' @ [0x41, 0x01]) i ''AUTH'')"
  using recovered_strings_printable [of 4 "bytes ''AUTH'' @ [0x00] @ bytes ''abc''"]
    recovered_strings_printable [of 4 "utf16le_encode ''AUTH'' @ [0x41, 0x01]"]
  by (simp only: scan_AUTH printable_def) simp

section \<open>The classifier\<close>

lemma uniq_fold_inv:
  "seen = set res \<Longrightarrow> distinct res \<Longrightarrow>
   fst (fold uniq_step seq (seen, res)) = set (snd (fold uniq_step seq (seen, res))) \<and>
   distinct (snd (fold uniq_step seq (seen, res))) \<and>
   set (snd (fold uniq_step seq (seen, res))) = set res \<union> set seq"
proof (induction seq arbitrary: seen res)
  case Nil
  then show ?case by simp
next
  case (Cons s seq)
  show ?case
  proof (cases "s \<in> seen")
    case True
    with Cons.prems Cons.IH [of seen res] show ?thesis
      by (auto simp add: uniq_step_def)
  next
    case False
    with Cons.prems Cons.IH [of "insert s seen" "res @ [s]"] show ?thesis
      by (auto simp add: uniq_step_def)
  qed
qed

lemma set_uniq: "set (uniq seq) = set seq"
  using uniq_fold_inv [of "{}" "[]" seq] by (simp add: uniq_def)

lemma distinct_uniq: "distinct (uniq seq)"
  using uniq_fold_inv [of "{}" "[]" seq] by (simp add: uniq_def)

lemma uniq_preserve_uniq: "uniq_preserve seq = uniq seq"
  by (simp add: uniq_preserve_def uniq_def)

lemma fold_append_hits: "fold (\<lambda>s hits. hits @ f s) strings acc = acc @ concat (map f strings)"
  by (induction strings arbitrary: acc) simp_all

lemma uniq_concat_perm:
  assumes "mset xs = mset ys"
  shows "mset (uniq (concat (map f xs))) = mset (uniq (concat (map f ys)))"
proof -
  from assms have "set xs = set ys" by (rule mset_eq_setD)
  then have "set (uniq (concat (map f xs))) = set (uniq (concat (map f ys)))"
    by (simp add: set_uniq)
  then show ?thesis
    by (simp add: set_eq_iff_mset_eq_distinct [symmetric] distinct_uniq)
qed

lemma find_json_like_concat:
  "find_json_like strings =
     uniq (concat (map (\<lambda>s. if CHR ''{'' \<in> set s \<and> CHR ''}'' \<in> set s \<and> CHR '':'' \<in> set s \<and> length s \<le> 512
                             then [s] else []) strings))"
proof -
  have "(\<lambda>s hits. if CHR ''{'' \<in> set s \<and> CHR ''}'' \<in> set s \<and> CHR '':'' \<in> set s
                   then (if length s \<le> 512 then hits @ [s] else hits) else hits)
      = (\<lambda>s hits. hits @ (if CHR ''{'' \<in> set s \<and> CHR ''}'' \<in> set s \<and> CHR '':'' \<in> set s \<and> length s \<le> 512
                             then [s] else []))"
    by (intro ext) simp
  then show ?thesis by (simp only: find_json_like_def fold_append_hits append_Nil)
qed

lemma fold_const_append: "fold (\<lambda>_ hits. hits @ [s]) m acc = acc @ replicate (length m) s"
  by (induction m arbitrary: acc) (simp_all add: replicate_append_same)

lemma find_mqtt_topics_concat:
  "find_mqtt_topics strings =
     uniq (concat (map (\<lambda>s. replicate (length (findall_group1 word_char MQTT_TOPIC_RE s)) s) strings))"
proof -
  have "(\<lambda>s hits. let m = findall_group1 word_char MQTT_TOPIC_RE s in
                   if m \<noteq> [] then fold (\<lambda>_ hits. hits @ [s]) m hits else hits)
      = (\<lambda>s hits. hits @ replicate (length (findall_group1 word_char MQTT_TOPIC_RE s)) s)"
    by (intro ext) (simp add: Let_def fold_const_append)
  then show ?thesis by (simp only: find_mqtt_topics_def fold_append_hits append_Nil)
qed

lemma find_search_concat:
  "uniq (fold (\<lambda>s hits. if search w r s then hits @ [s] else hits) strings []) =
   uniq (concat (map (\<lambda>s. if search w r s then [s] else []) strings))"
proof -
  have "(\<lambda>s hits. if search w r s then hits @ [s] else hits)
      = (\<lambda>s hits. hits @ (if search w r s then [s] else []))"
    by (intro ext) simp
  then show ?thesis by (simp only: fold_append_hits append_Nil)
qed

lemma fold_pair_append:
  "fold (\<lambda>s (a, b). (a @ f s, b @ g s)) strings (a0, b0) =
     (a0 @ concat (map f strings), b0 @ concat (map g strings))"
  by (induction strings arbitrary: a0 b0) simp_all

lemma find_keys_concat:
  "find_keys strings =
     (uniq (concat (map (findall_whole word_char AES_KEY_HEX_RE) strings)),
      uniq (concat (map (findall_whole word_char BASE64_KEY_RE) strings)))"
  by (simp add: find_keys_def fold_pair_append)

lemma classify_sel:
  "json_like (classify xs) = find_json_like xs"
  "mqtt_topics_like (classify xs) = find_mqtt_topics xs"
  "tuya_dp_fragments (classify xs) = find_tuya_dp xs"
  "aes_key_hex_candidates (classify xs) = fst (find_keys xs)"
  "base64_key_candidates (classify xs) = snd (find_keys xs)"
  "tuya_signature_related (classify xs) = find_tuya_sig xs"
  by (simp_all add: classify_def Let_def split: prod.splits)

lemma same_hits_uniq_concat:
  assumes "mset xs = mset ys"
  shows "same_hits (uniq (concat (map f xs))) (uniq (concat (map f ys)))"
  using uniq_concat_perm [OF assms, of f] mset_eq_setD [OF uniq_concat_perm [OF assms, of f]]
  by (simp add: same_hits_def distinct_uniq)

text \<open>
  C8. The classifier is a function of the sequence of strings: there is no state outside
  its local lists, so the same sequence gives the same categories. Under any permutation
  of the sequence each category keeps its hits: both lists are free of duplicates and hold
  the same strings, in an order that may differ.
\<close>

theorem classify_permutation:
  assumes "mset xs = mset ys"
  shows "same_hits (json_like (classify xs)) (json_like (classify ys)) \<and>
         same_hits (mqtt_topics_like (classify xs)) (mqtt_topics_like (classify ys)) \<and>
         same_hits (tuya_dp_fragments (classify xs)) (tuya_dp_fragments (classify ys)) \<and>
         same_hits (aes_key_hex_candidates (classify xs)) (aes_key_hex_candidates (classify ys)) \<and>
         same_hits (base64_key_candidates (classify xs)) (base64_key_candidates (classify ys)) \<and>
         same_hits (tuya_signature_related (classify xs)) (tuya_signature_related (classify ys)) \<and>
         same_hits (uniq_preserve xs) (uniq_preserve ys)"
proof -
  have "same_hits (uniq (concat (map (\<lambda>x. [x]) xs))) (uniq (concat (map (\<lambda>x. [x]) ys)))"
    using assms by (rule same_hits_uniq_concat)
  then have "same_hits (uniq_preserve xs) (uniq_preserve ys)"
    by (simp add: uniq_preserve_uniq)
  then show ?thesis
    unfolding classify_sel find_json_like_concat find_mqtt_topics_concat find_keys_concat
      fst_conv snd_conv find_tuya_dp_def find_tuya_sig_def find_search_concat
    by (intro conjI same_hits_uniq_concat assms)
qed

lemma json_like_order:
  "find_json_like [''{a:1}'', ''{b:2}'', ''{a:1}''] = [''{a:1}'', ''{b:2}'']"
  "find_json_like [''{b:2}'', ''{a:1}'', ''{a:1}''] = [''{b:2}'', ''{a:1}'']"
  by code_simp+

theorem classify_permutation_witness:
  "mset [''{a:1}'', ''{b:2}'', ''{a:1}''] = mset [''{b:2}'', ''{a:1}'', ''{a:1}''] \<and>
   same_hits (json_like (classify [''{a:1}'', ''{b:2}'', ''{a:1}'']))
     (json_like (classify [''{b:2}'', ''{a:1}'', ''{a:1}''])) \<and>
   json_like (classify [''{a:1}'', ''{b:2}'', ''{a:1}'']) = [''{a:1}'', ''{b:2}''] \<and>
   json_like (classify [''{b:2}'', ''{a:1}'', ''{a:1}'']) = [''{b:2}'', ''{a:1}'']"
proof -
  have m: "mset [''{a:1}'', ''{b:2}'', ''{a:1}''] = mset [''{b:2}'', ''{a:1}'', ''{a:1}'']"
    by simp
  show ?thesis
    using m classify_permutation [OF m] by (simp only: classify_sel json_like_order)
qed

section \<open>The synthetic buffers of the specification\<close>

lemma wide_AUTHKEY_scan:
  "extract_utf16le_strings (utf16le_encode ''AUTHKEY'') 4 = [''AUTHKEY'']"
  by code_simp

lemma wide_AUTHKEY_keywords: "keyword_hits (utf16le_encode ''AUTHKEY'') = []"
  by code_simp

lemma wide_AUTHKEY_verdict: "scan_data (utf16le_encode ''AUTHKEY'') = None"
  by code_simp

text \<open>
  C2, as the code has it. The two-byte scan recovers \<^verbatim>\<open>AUTHKEY\<close> from its wide
  encoding. The keyword gate looks for the single-byte spelling of each keyword, which
  does not occur in the wide bytes, so it records nothing; and the buffer, 14 bytes long,
  is below the size gate, so \<^verbatim>\<open>scan_blob\<close> returns no verdict for it.
\<close>

theorem wide_AUTHKEY:
  "extract_utf16le_strings (utf16le_encode ''AUTHKEY'') 4 = [''AUTHKEY''] \<and>
   keyword_hits (utf16le_encode ''AUTHKEY'') = [] \<and>
   scan_data (utf16le_encode ''AUTHKEY'') = None"
  by (simp only: wide_AUTHKEY_scan wide_AUTHKEY_keywords wide_AUTHKEY_verdict simp_thms)

text \<open>The claim as stated fails: no keyword hit for \<^verbatim>\<open>AUTHKEY\<close> is recorded.\<close>

theorem wide_AUTHKEY_counterexample:
  "\<not> keyword_recorded ''AUTHKEY'' (scan_data (utf16le_encode ''AUTHKEY''))"
  by (simp add: wide_AUTHKEY_verdict keyword_recorded_def)

lemma localKey_pairs:
  "ascii_hits (bytes ''localKey=ABCDEF1234567890ABCDEF1234567890'') =
     [(''localKey'', ''ABCDEF1234567890ABCDEF1234567890'')]"
  by code_simp

lemma localKey_hex:
  "fst (find_keys (all_strings (bytes ''localKey=ABCDEF1234567890ABCDEF1234567890''))) =
     [''ABCDEF1234567890ABCDEF1234567890'']"
  by code_simp

text \<open>
  C3. On the buffer \<^verbatim>\<open>b"localKey=ABCDEF1234567890ABCDEF1234567890"\<close> the ASCII
  key/value extractor gives the one pair of key \<^verbatim>\<open>localKey\<close> and the 32 hexadecimal
  characters, and the hex-key candidates of the strings recovered from the buffer are
  those 32 characters.
\<close>

theorem localKey_round_trip:
  "ascii_hits (bytes ''localKey=ABCDEF1234567890ABCDEF1234567890'') =
     [(''localKey'', ''ABCDEF1234567890ABCDEF1234567890'')] \<and>
   fst (find_keys (all_strings (bytes ''localKey=ABCDEF1234567890ABCDEF1234567890''))) =
     [''ABCDEF1234567890ABCDEF1234567890'']"
  by (simp only: localKey_pairs localKey_hex simp_thms)

text \<open>
  C7 on the code. A token of 22 base64 characters followed by \<^verbatim>\<open>==\<close> is reported
  without its padding: the closing \<^verbatim>\<open>\b\<close> of \<^verbatim>\<open>BASE64_KEY_RE\<close> cannot match after
  an equals sign unless a word character follows, so the match gives the padding back.
\<close>

theorem base64_padding_dropped:
  "snd (find_keys [''AAAAAAAAAAAAAAAAAAAAAA=='']) = [''AAAAAAAAAAAAAAAAAAAAAA'']"
  by code_simp

section \<open>Keys longer than 32 characters\<close>

lemma runlen_step: "i < length s \<Longrightarrow> p (s ! i) \<Longrightarrow> runlen p s i = Suc (runlen p s (Suc i))"
  by (simp add: runlen_def Cons_nth_drop_Suc [symmetric])

lemma runlen_zero: "\<not> (i < length s \<and> p (s ! i)) \<Longrightarrow> runlen p s i = 0"
  by (cases "i < length s") (simp_all add: runlen_def Cons_nth_drop_Suc [symmetric])

lemma runlen_nth:
  assumes "x < runlen p s i"
  shows "i + x < length s \<and> p (s ! (i + x))"
proof -
  let ?ys = "drop i s"
  from assms have x: "x < length (takeWhile p ?ys)" by (simp add: runlen_def)
  have "length (takeWhile p ?ys) \<le> length ?ys" by (rule length_takeWhile_le)
  with x have len: "i + x < length s" by simp
  from x have "takeWhile p ?ys ! x \<in> set (takeWhile p ?ys)" by simp
  then have "p (takeWhile p ?ys ! x)" by (rule set_takeWhileD [THEN conjunct2])
  with x have "p (?ys ! x)" by (simp add: takeWhile_nth)
  with len show ?thesis by simp
qed

lemma runlen_ge:
  assumes "\<And>x. x < n \<Longrightarrow> p (s ! (i + x))" "i + n \<le> length s"
  shows "n \<le> runlen p s i"
  unfolding runlen_def
  by (rule length_takeWhile_less_P_nth) (use assms in simp_all)

lemma rev_upt_Suc: "lo \<le> n \<Longrightarrow> rev [lo ..< Suc n] = n # rev [lo ..< n]"
  by simp

lemma rep_sym:
  "rep_run (rx_run w s (Sym p)) lo hi (i, c) =
     map (\<lambda>k. (i + k, c)) (rev [lo ..< Suc (min hi (runlen p s i))])"
proof (induction hi arbitrary: lo i)
  case 0
  show ?case by (cases lo) simp_all
next
  case (Suc hi)
  show ?case
  proof (cases "i < length s \<and> p (s ! i)")
    case False
    then show ?thesis by (cases lo) (auto simp add: runlen_zero)
  next
    case True
    then have r: "runlen p s i = Suc (runlen p s (Suc i))" by (simp add: runlen_step)
    let ?m = "min hi (runlen p s (Suc i))"
    show ?thesis
    proof (cases lo)
      case 0
      have "[0 ..< Suc (Suc ?m)] = 0 # map Suc [0 ..< Suc ?m]"
        by (simp only: map_Suc_upt upt_conv_Cons [of 0 "Suc (Suc ?m)"] zero_less_Suc)
      then show ?thesis using True 0 r Suc.IH [of 0 "Suc i"]
        by (simp add: rev_map comp_def del: upt_Suc)
    next
      case (Suc l)
      have "[Suc l ..< Suc (Suc ?m)] = map Suc [l ..< Suc ?m]"
        by (simp only: map_Suc_upt)
      then show ?thesis using True Suc r Suc.IH [of l "Suc i"]
        by (simp add: rev_map comp_def del: upt_Suc)
    qed
  qed
qed


lemma run_Rep_Sym:
  "rx_run w s (Rep lo hi (Sym p)) (i, c) =
     map (\<lambda>k. (i + k, c)) (rev [lo ..< Suc (min hi (runlen p s i))])"
  unfolding rx_run.simps(5) by (rule rep_sym)

lemma run_lit:
  "rx_run w s (lit x) (i, c) = (if i < length s \<and> s ! i = x then [(Suc i, c)] else [])"
  by (simp add: lit_def)

lemma run_Grp:
  "rx_run w s (Grp n r) (i, c) = map (\<lambda>st'. (fst st', (n, i, fst st') # snd st')) (rx_run w s r (i, c))"
  by simp

lemma run_Cat: "rx_run w s (Cat r1 r2) st = concat (map (rx_run w s r2) (rx_run w s r1 st))"
  by simp

lemma ascii_kv_tail:
  "rx_run w s (Cat (lit (ord CHR ''='')) (Grp 2 (Rep 1 128 (Sym value_byte)))) (j, c) =
     (if j < length s \<and> s ! j = ord CHR ''=''
      then map (\<lambda>n. (j + 1 + n, (2, j + 1, j + 1 + n) # c))
             (rev [1 ..< Suc (min 128 (runlen value_byte s (j + 1)))])
      else [])"
proof (cases "j < length s \<and> s ! j = ord CHR ''=''")
  case True
  then have "rx_run w s (lit (ord CHR ''='')) (j, c) = [(Suc j, c)]"
    by (simp add: run_lit)
  then have "rx_run w s (Cat (lit (ord CHR ''='')) (Grp 2 (Rep 1 128 (Sym value_byte)))) (j, c) =
             rx_run w s (Grp 2 (Rep 1 128 (Sym value_byte))) (Suc j, c)"
    by (simp only: run_Cat list.map concat.simps append_Nil2)
  also have "\<dots> = map (\<lambda>n. (j + 1 + n, (2, j + 1, j + 1 + n) # c))
             (rev [1 ..< Suc (min 128 (runlen value_byte s (j + 1)))])"
    by (simp only: run_Grp run_Rep_Sym) (simp add: comp_def del: upt_Suc)
  finally show ?thesis using True by (simp del: rx_run.simps upt_Suc)
next
  case False
  then have "rx_run w s (lit (ord CHR ''='')) (j, c) = []"
    by (simp add: run_lit)
  then have "rx_run w s (Cat (lit (ord CHR ''='')) (Grp 2 (Rep 1 128 (Sym value_byte)))) (j, c) = []"
    by (simp only: run_Cat list.map concat.simps)
  then show ?thesis using False by (auto simp del: rx_run.simps upt_Suc)
qed

lemma ascii_kv_runs: "rx_run word_byte s ASCII_KV_RE (i, []) = kv_runs s i"
proof -
  have "rx_run word_byte s ASCII_KV_RE (i, []) =
          concat (map (rx_run word_byte s (Cat (lit (ord CHR ''='')) (Grp 2 (Rep 1 128 (Sym value_byte)))))
                    (rx_run word_byte s (Grp 1 (Rep 2 32 (Sym ident_byte))) (i, [])))"
    by (simp only: ASCII_KV_RE_def cat_all.simps run_Cat)
  also have "rx_run word_byte s (Grp 1 (Rep 2 32 (Sym ident_byte))) (i, []) =
          map (\<lambda>k. (i + k, [(1, i, i + k)])) (rev [2 ..< Suc (min 32 (runlen ident_byte s i))])"
    by (simp only: run_Grp run_Rep_Sym) (simp add: comp_def del: upt_Suc)
  finally show ?thesis
    by (simp only: map_map comp_def ascii_kv_tail kv_runs_def)
qed

lemma eq_byte: "ord CHR ''='' = (0x3D :: byte)"
  by (simp add: ord_def)

lemma ident_byte_iff:
  "ident_byte b \<longleftrightarrow> (0x41 \<le> b \<and> b \<le> 0x5A) \<or> (0x61 \<le> b \<and> b \<le> 0x7A) \<or> (0x30 \<le> b \<and> b \<le> 0x39) \<or> b = 0x5F"
  by (auto simp add: ident_byte_def in_ranges_def ord_def)

lemma value_byte_iff: "value_byte b \<longleftrightarrow> b \<noteq> 0x00 \<and> b \<noteq> 0x0D \<and> b \<noteq> 0x0A"
  by (auto simp add: value_byte_def in_ranges_def)

lemma ident_value: "ident_byte b \<Longrightarrow> value_byte b"
  by (auto simp add: ident_byte_iff value_byte_iff)

lemma ident_not_eq: "ident_byte b \<Longrightarrow> b \<noteq> ord CHR ''=''"
  by (auto simp add: ident_byte_iff eq_byte)

lemma eq_value: "value_byte (ord CHR ''='')"
  by (simp add: value_byte_iff eq_byte)

lemma ident_ascii: "ident_byte b \<Longrightarrow> b < 128"
  by (auto simp add: ident_byte_iff word_le_nat_alt word_less_nat_alt)

end
